theory Spec2Isabelle
  imports Complex_Main "HOL-Library.Sublist" "HOL-Library.Multiset"
begin

section \<open>Text: Python's str operations used by the two pipelines\<close>

text \<open>
  Titles, scraped field texts and chat messages are modelled as \<^typ>\<open>string\<close>, a list of
  8-bit characters read as ASCII text. Python's \<^verbatim>\<open>\s\<close>, \<^verbatim>\<open>str.strip\<close> and \<^verbatim>\<open>str.split\<close>
  share one notion of white space; below code point 128 it is the ten characters of
  \<open>ws_chars\<close>. \<^verbatim>\<open>\d\<close> is \<open>0-9\<close> and \<^verbatim>\<open>\w\<close> is letters, digits and the underscore.
  Characters outside ASCII (which Python would classify by the Unicode tables) are treated
  as ordinary non-word, non-space characters that \<^verbatim>\<open>lower()\<close> leaves alone.

  Python's \<^verbatim>\<open>float\<close> values are modelled as exact rationals (\<^typ>\<open>rat\<close>): binary rounding
  and the infinities are not part of the model. Python's \<^verbatim>\<open>int\<close> is unbounded.
\<close>

definition digit_chars :: string where
  "digit_chars = ''0123456789''"

definition lower_chars :: string where
  "lower_chars = ''abcdefghijklmnopqrstuvwxyz''"

definition upper_chars :: string where
  "upper_chars = ''ABCDEFGHIJKLMNOPQRSTUVWXYZ''"

definition word_chars :: string where
  "word_chars = lower_chars @ upper_chars @ digit_chars @ ''_''"

definition ws_chars :: string where
  "ws_chars = [CHR 0x09, CHR 0x0A, CHR 0x0B, CHR 0x0C, CHR 0x0D,
               CHR 0x1C, CHR 0x1D, CHR 0x1E, CHR 0x1F, CHR 0x20]"

definition is_ws :: "char \<Rightarrow> bool" where
  "is_ws c = (c \<in> set ws_chars)"

definition lower_char :: "char \<Rightarrow> char" where
  "lower_char c = (case map_of (zip upper_chars lower_chars) c of Some l \<Rightarrow> l | None \<Rightarrow> c)"

definition upper_char :: "char \<Rightarrow> char" where
  "upper_char c = (case map_of (zip lower_chars upper_chars) c of Some u \<Rightarrow> u | None \<Rightarrow> c)"

text \<open>\<^verbatim>\<open>s.lower()\<close>\<close>

definition py_lower :: "string \<Rightarrow> string" where
  "py_lower s = map lower_char s"

text \<open>\<^verbatim>\<open>s.strip()\<close>: white space removed at both ends.\<close>

definition py_strip :: "string \<Rightarrow> string" where
  "py_strip s = rev (dropWhile is_ws (rev (dropWhile is_ws s)))"

text \<open>\<^verbatim>\<open>s.startswith(t)\<close>\<close>

definition startswith :: "string \<Rightarrow> string \<Rightarrow> bool" where
  "startswith s t = (take (length t) s = t)"

text \<open>\<^verbatim>\<open>t in s\<close>: \<open>t\<close> occurs in \<open>s\<close> as a contiguous piece.\<close>

fun py_in :: "string \<Rightarrow> string \<Rightarrow> bool" where
  "py_in t [] = (t = [])"
| "py_in t (c # cs) = (startswith (c # cs) t \<or> py_in t cs)"

text \<open>\<^verbatim>\<open>s.split()\<close>: the maximal runs of non-space characters, in order.\<close>

fun split_acc :: "string \<Rightarrow> string \<Rightarrow> string list" where
  "split_acc w [] = (if w = [] then [] else [w])"
| "split_acc w (c # cs) =
     (if is_ws c then (if w = [] then split_acc [] cs else w # split_acc [] cs)
      else split_acc (w @ [c]) cs)"

definition py_split :: "string \<Rightarrow> string list" where
  "py_split s = split_acc [] s"

text \<open>\<^verbatim>\<open>' '.join(ws)\<close>\<close>

fun join_space :: "string list \<Rightarrow> string" where
  "join_space [] = []"
| "join_space [w] = w"
| "join_space (w # v # ws) = w @ '' '' @ join_space (v # ws)"

subsection \<open>Numbers read from text\<close>

datatype error = ValueError

definition digit_val :: "char \<Rightarrow> nat" where
  "digit_val c = (case map_of (zip digit_chars [0 ..< 10]) c of Some d \<Rightarrow> d | None \<Rightarrow> 0)"

definition digits_val :: "string \<Rightarrow> nat" where
  "digits_val s = foldl (\<lambda>n c. 10 * n + digit_val c) 0 s"

text \<open>
  \<^verbatim>\<open>int(s)\<close> on text: optional surrounding white space around a non-empty run of
  digits (signs and underscores never reach the call sites); anything else is a
  \<^verbatim>\<open>ValueError\<close>.
\<close>

definition py_int :: "string \<Rightarrow> error + int" where
  "py_int s = (let t = py_strip s in
     if t \<noteq> [] \<and> list_all (\<lambda>c. c \<in> set digit_chars) t then Inr (int (digits_val t))
     else Inl ValueError)"

text \<open>
  \<^verbatim>\<open>float(s)\<close> on the texts that reach it, which consist of digits and dots only
  (surrounding white space is allowed, as in Python): a decimal numeral with at most one
  dot and at least one digit has its exact value; any other text is a \<^verbatim>\<open>ValueError\<close>.
\<close>

definition py_float :: "string \<Rightarrow> error + rat" where
  "py_float s =
     (let t = py_strip s;
          ip = takeWhile (\<lambda>c. c \<noteq> CHR ''.'') t;
          fp = drop 1 (dropWhile (\<lambda>c. c \<noteq> CHR ''.'') t)
      in if list_all (\<lambda>c. c \<in> set digit_chars) (ip @ fp) \<and> ip @ fp \<noteq> []
         then Inr (of_nat (digits_val ip) + of_nat (digits_val fp) / 10 ^ length fp)
         else Inl ValueError)"

section \<open>Regular expressions as Python's re module matches them\<close>

text \<open>
  The patterns of the program are values of \<open>regex\<close>; \<open>ms\<close> is a backtracking matcher
  that lists, in the order Python's engine tries them, the ways a pattern can match at
  the current position. A matcher state is the text already passed (reversed, so that
  the previous character is its head), the text still ahead, and the captured groups
  (latest capture first). Quantifiers are greedy: a starred pattern first tries one more
  round and only then stops. A round that consumes nothing is cut off; no starred pattern
  of the program can match the empty text.
\<close>

datatype regex =
    Eps
  | Cls "char list"
  | NCls "char list"
  | Seq regex regex
  | Alt regex regex
  | Star regex
  | Group nat regex
  | Backref nat
  | WordB
  | Bol
  | Eol
  | Behind "char list"

type_synonym groups = "(nat \<times> string) list"
type_synonym mstate = "string \<times> string \<times> groups"

definition word_before :: "string \<Rightarrow> bool" where
  "word_before p = (case p of [] \<Rightarrow> False | c # _ \<Rightarrow> c \<in> set word_chars)"

fun ms :: "regex \<Rightarrow> mstate \<Rightarrow> mstate list" where
  "ms Eps st = [st]"
| "ms (Cls cs) (p, s, g) =
     (case s of [] \<Rightarrow> [] | x # xs \<Rightarrow> if x \<in> set cs then [(x # p, xs, g)] else [])"
| "ms (NCls cs) (p, s, g) =
     (case s of [] \<Rightarrow> [] | x # xs \<Rightarrow> if x \<notin> set cs then [(x # p, xs, g)] else [])"
| "ms (Seq a b) st = concat (map (ms b) (ms a st))"
| "ms (Alt a b) st = ms a st @ ms b st"
| "ms (Star r) (p, s, g) =
     concat (map (\<lambda>st'. if length (fst (snd st')) < length s then ms (Star r) st' else [])
                 (ms r (p, s, g)))
     @ [(p, s, g)]"
| "ms (Group n r) (p, s, g) =
     map (\<lambda>st'. (fst st', fst (snd st'),
                  (n, take (length s - length (fst (snd st'))) s) # snd (snd st')))
         (ms r (p, s, g))"
| "ms (Backref n) (p, s, g) =
     (case map_of g n of
        None \<Rightarrow> []
      | Some t \<Rightarrow> if startswith s t then [(rev t @ p, drop (length t) s, g)] else [])"
| "ms WordB (p, s, g) = (if word_before p \<noteq> word_before s then [(p, s, g)] else [])"
| "ms Bol (p, s, g) = (if p = [] then [(p, s, g)] else [])"
| "ms Eol (p, s, g) = (if s = [] \<or> s = [CHR 0x0A] then [(p, s, g)] else [])"
| "ms (Behind cs) (p, s, g) =
     (case p of [] \<Rightarrow> [] | c # _ \<Rightarrow> if c \<in> set cs then [(p, s, g)] else [])"


text \<open>
  \<^verbatim>\<open>re.search(pat, s)\<close>: the first way of matching at the leftmost position that has one.
  The result is the captured groups, with the whole match as group 0.
\<close>

fun search_from :: "regex \<Rightarrow> string \<Rightarrow> string \<Rightarrow> groups option" where
  "search_from r p [] =
     (case ms r (p, [], []) of [] \<Rightarrow> None | st # _ \<Rightarrow> Some ((0, []) # snd (snd st)))"
| "search_from r p (x # xs) =
     (case ms r (p, x # xs, []) of
        [] \<Rightarrow> search_from r (x # p) xs
      | st # _ \<Rightarrow>
          Some ((0, take (length (x # xs) - length (fst (snd st))) (x # xs)) # snd (snd st)))"

definition re_search :: "regex \<Rightarrow> string \<Rightarrow> groups option" where
  "re_search r s = search_from r [] s"

text \<open>\<^verbatim>\<open>re.match(pat, s)\<close>: a match at the start of the text only.\<close>

definition re_match :: "regex \<Rightarrow> string \<Rightarrow> groups option" where
  "re_match r s =
     (case ms r ([], s, []) of
        [] \<Rightarrow> None
      | st # _ \<Rightarrow> Some ((0, take (length s - length (fst (snd st))) s) # snd (snd st)))"

text \<open>\<^verbatim>\<open>m.group(n)\<close>, for a group that took part in the match.\<close>

definition group :: "groups \<Rightarrow> nat \<Rightarrow> string" where
  "group m n = (case map_of m n of Some t \<Rightarrow> t | None \<Rightarrow> [])"

text \<open>
  \<^verbatim>\<open>re.sub(pat, repl, s)\<close>: the leftmost matches that do not overlap are replaced, left
  to right. The replacement is a template of literal pieces and group references. An
  empty match is replaced and the scan moves on by one character (no pattern that the
  program passes to \<^verbatim>\<open>re.sub\<close> or \<^verbatim>\<open>re.findall\<close> can match the empty text).
\<close>

datatype rpart = RLit string | RGrp nat

fun expand :: "rpart list \<Rightarrow> groups \<Rightarrow> string" where
  "expand [] g = []"
| "expand (RLit t # ps) g = t @ expand ps g"
| "expand (RGrp n # ps) g = group g n @ expand ps g"

function sub_from :: "regex \<Rightarrow> rpart list \<Rightarrow> string \<Rightarrow> string \<Rightarrow> string" where
  "sub_from r repl p s =
     (case ms r (p, s, []) of
        [] \<Rightarrow> (case s of [] \<Rightarrow> [] | x # xs \<Rightarrow> x # sub_from r repl (x # p) xs)
      | st # _ \<Rightarrow>
          if length (fst (snd st)) < length s
          then expand repl (snd (snd st)) @ sub_from r repl (fst st) (fst (snd st))
          else expand repl (snd (snd st))
               @ (case s of [] \<Rightarrow> [] | x # xs \<Rightarrow> x # sub_from r repl (x # p) xs))"
  by pat_completeness auto
termination
  by (relation "measure (\<lambda>(r, repl, p, s). length s)") auto

definition re_sub :: "regex \<Rightarrow> rpart list \<Rightarrow> string \<Rightarrow> string" where
  "re_sub r repl s = sub_from r repl [] s"

text \<open>\<^verbatim>\<open>re.findall(pat, s)\<close> for a pattern without groups: the matched texts.\<close>

function findall_from :: "regex \<Rightarrow> string \<Rightarrow> string \<Rightarrow> string list" where
  "findall_from r p s =
     (case ms r (p, s, []) of
        [] \<Rightarrow> (case s of [] \<Rightarrow> [] | x # xs \<Rightarrow> findall_from r (x # p) xs)
      | st # _ \<Rightarrow>
          if length (fst (snd st)) < length s
          then take (length s - length (fst (snd st))) s
               # findall_from r (fst st) (fst (snd st))
          else [] # (case s of [] \<Rightarrow> [] | x # xs \<Rightarrow> findall_from r (x # p) xs))"
  by pat_completeness auto
termination
  by (relation "measure (\<lambda>(r, p, s). length s)") auto

definition re_findall :: "regex \<Rightarrow> string \<Rightarrow> string list" where
  "re_findall r s = findall_from r [] s"

subsection \<open>Pattern notation\<close>

definition Lit :: "char \<Rightarrow> regex" where
  "Lit c = Cls [c]"

text \<open>A literal text, and the same under \<^verbatim>\<open>re.IGNORECASE\<close>.\<close>

definition Str :: "string \<Rightarrow> regex" where
  "Str s = foldr (\<lambda>c r. Seq (Lit c) r) s Eps"

definition IStr :: "string \<Rightarrow> regex" where
  "IStr s = foldr (\<lambda>c r. Seq (Cls [lower_char c, upper_char c]) r) s Eps"

definition Seqs :: "regex list \<Rightarrow> regex" where
  "Seqs rs = foldr Seq rs Eps"

fun Alts :: "regex list \<Rightarrow> regex" where
  "Alts [] = NCls []"
| "Alts [r] = r"
| "Alts (r # q # rs) = Alt r (Alts (q # rs))"

text \<open>The greedy quantifiers \<^verbatim>\<open>+\<close>, \<^verbatim>\<open>?\<close>, \<^verbatim>\<open>{2,}\<close> and \<^verbatim>\<open>{1,3}\<close>.\<close>

definition Plus :: "regex \<Rightarrow> regex" where
  "Plus r = Seq r (Star r)"

definition Opt :: "regex \<Rightarrow> regex" where
  "Opt r = Alt r Eps"

definition AtLeast2 :: "regex \<Rightarrow> regex" where
  "AtLeast2 r = Seq r (Seq r (Star r))"

definition OneToThree :: "regex \<Rightarrow> regex" where
  "OneToThree r = Seq r (Opt (Seq r (Opt r)))"

text \<open>\<^verbatim>\<open>\s\<close>, \<^verbatim>\<open>\d\<close>, \<^verbatim>\<open>\w\<close>, \<^verbatim>\<open>[A-Z]\<close>, \<^verbatim>\<open>[a-z]\<close>, \<^verbatim>\<open>[\d.]\<close>\<close>

definition Ws :: regex where "Ws = Cls ws_chars"
definition Dig :: regex where "Dig = Cls digit_chars"
definition Wd :: regex where "Wd = Cls word_chars"
definition Up :: regex where "Up = Cls upper_chars"
definition Lo :: regex where "Lo = Cls lower_chars"
definition DigDot :: regex where "DigDot = Cls (digit_chars @ ''.'')"


section \<open>amazon_search.py: parsing helpers\<close>

text \<open>
  \<^verbatim>\<open>_clean_title\<close>: nine substitutions in the order of the source, then \<^verbatim>\<open>strip()\<close>.
  The first two carry \<^verbatim>\<open>re.IGNORECASE\<close>.
\<close>

definition pat_noise_adult :: regex where
  "pat_noise_adult =
     Seqs [WordB,
           Alt (Seqs [IStr ''Unisex'', Star Ws, Opt (Lit CHR ''-''), Star Ws,
                      Cls ''Aa'', IStr ''dult''])
               (IStr ''unisex-adult''),
           WordB, Star Ws, Opt (Lit CHR ''-''), Star Ws]"

definition pat_noise_gender :: regex where
  "pat_noise_gender =
     Seqs [WordB, Alts [IStr ''mens'', IStr ''womens'', IStr ''unisex''], WordB, Star Ws]"

definition pat_dup_word :: regex where
  "pat_dup_word = Seqs [WordB, Group 1 (Plus Wd), Plus Ws, Backref 1, WordB]"

definition pat_dup_concat :: regex where
  "pat_dup_concat = Seqs [Group 1 (Seq Up (AtLeast2 Lo)), Backref 1]"

definition pat_dup_phrase :: regex where
  "pat_dup_phrase =
     Seqs [Group 1 (Seqs [Up, Plus Lo, Star (Seqs [Plus Ws, Up, Plus Lo])]),
           Backref 1, Opt (Lit CHR ''s'')]"

definition pat_lower_upper :: regex where
  "pat_lower_upper = Seqs [Group 1 Lo, Group 2 Up]"

definition pat_jammed_capital :: regex where
  "pat_jammed_capital =
     Seqs [Behind ws_chars, Group 1 Up, Group 2 (Seq Up (AtLeast2 Lo))]"

definition pat_size_letter :: regex where
  "pat_size_letter =
     Seqs [Behind ws_chars, Group 1 (Cls ''SMLX''),
           Group 2 (Seq (OneToThree Lo) (Lit CHR ''-''))]"

definition pat_spaces :: regex where
  "pat_spaces = Plus Ws"

definition clean_title :: "string \<Rightarrow> string" where
  "clean_title title0 =
     (let title1 = re_sub pat_noise_adult [] title0;
          title2 = re_sub pat_noise_gender [] title1;
          title3 = re_sub pat_dup_word [RGrp 1] title2;
          title4 = re_sub pat_dup_concat [RGrp 1] title3;
          title5 = re_sub pat_dup_phrase [RGrp 1] title4;
          title6 = re_sub pat_lower_upper [RGrp 1, RLit '' '', RGrp 2] title5;
          title7 = re_sub pat_jammed_capital [RGrp 1, RLit '' '', RGrp 2] title6;
          title8 = re_sub pat_size_letter [RGrp 1, RLit '' '', RGrp 2] title7
      in py_strip (re_sub pat_spaces [RLit '' ''] title8))"

text \<open>
  \<^verbatim>\<open>_parse_price\<close>: every character but digits and dots is removed; a \<^verbatim>\<open>ValueError\<close> of
  \<^verbatim>\<open>float\<close> is caught and gives \<^verbatim>\<open>None\<close>.
\<close>

definition parse_price :: "string \<Rightarrow> rat option" where
  "parse_price s =
     (if s = [] then None
      else case py_float (re_sub (NCls (digit_chars @ ''.'')) [] s) of
             Inr v \<Rightarrow> Some v
           | Inl ValueError \<Rightarrow> None)"

text \<open>
  \<^verbatim>\<open>_parse_rating\<close>: nothing catches the \<^verbatim>\<open>ValueError\<close> of \<^verbatim>\<open>float\<close> here, so it is a
  result of the function.
\<close>

definition pat_rating_of5 :: regex where
  "pat_rating_of5 =
     Seqs [Group 1 (Plus DigDot), Star Ws, Alt (Str ''out of'') (Str ''/''), Star Ws,
           Lit CHR ''5'']"

definition pat_number :: regex where
  "pat_number = Group 1 (Plus DigDot)"

definition parse_rating :: "string \<Rightarrow> error + rat option" where
  "parse_rating s =
     (if s = [] then Inr None
      else case re_search pat_rating_of5 s of
        Some m \<Rightarrow> (case py_float (group m 1) of Inl e \<Rightarrow> Inl e | Inr v \<Rightarrow> Inr (Some v))
      | None \<Rightarrow>
         (case re_search pat_number s of
            Some m \<Rightarrow>
              (case py_float (group m 1) of
                 Inl e \<Rightarrow> Inl e
               | Inr val \<Rightarrow> Inr (if val \<le> 5 then Some val else None))
          | None \<Rightarrow> Inr None))"

text \<open>
  \<^verbatim>\<open>_parse_reviews\<close>: \<^verbatim>\<open>int(float(x) * 1000)\<close> truncates; \<^verbatim>\<open>int\<close> of the digits found by
  \<^verbatim>\<open>(\d+)\<close>.
\<close>

definition pat_thousands :: regex where
  "pat_thousands = Seqs [Group 1 (Plus DigDot), Star Ws, Cls ''Kk'']"

definition pat_digits :: regex where
  "pat_digits = Group 1 (Plus Dig)"

definition parse_reviews :: "string \<Rightarrow> error + int" where
  "parse_reviews s =
     (if s = [] then Inr 0
      else let cleaned = py_strip (filter (\<lambda>c. c \<noteq> CHR '','') s) in
        case re_search pat_thousands cleaned of
          Some m \<Rightarrow> (case py_float (group m 1) of Inl e \<Rightarrow> Inl e | Inr v \<Rightarrow> Inr (\<lfloor>v * 1000\<rfloor>))
        | None \<Rightarrow>
           (case re_search pat_digits cleaned of
              Some m \<Rightarrow> py_int (group m 1)
            | None \<Rightarrow> Inr 0))"

text \<open>
  \<^verbatim>\<open>_parse_screen_size\<close>: four patterns in turn; a pattern whose first match is outside
  10..30 passes on to the next pattern. The number \<^verbatim>\<open>\d+\.?\d*\<close> is always accepted by
  \<^verbatim>\<open>float\<close> (lemma \<open>parse_screen_size_total\<close>); the error branch is kept because the
  source has the call. In the third
  pattern the class holds the double quote and the double prime, which is not an ASCII
  character.
\<close>

definition num_pat :: regex where
  "num_pat = Group 1 (Seqs [Plus Dig, Opt (Lit CHR ''.''), Star Dig])"

definition size_patterns :: "regex list" where
  "size_patterns =
     [Seqs [num_pat, Star Ws, Opt (Cls [CHR ''-'', CHR 0x22]), Star Ws, Cls ''Ii'', Str ''nch''],
      Seqs [num_pat, Star Ws, Lit (CHR 0x22)],
      Seqs [num_pat, Cls [CHR 0x22]],
      Seqs [num_pat, Star Ws, Cls ''Ii'', Str ''n'', WordB]]"

fun size_loop :: "regex list \<Rightarrow> string \<Rightarrow> error + rat option" where
  "size_loop [] title = Inr None"
| "size_loop (pat # pats) title =
     (case re_search pat title of
        Some m \<Rightarrow>
          (case py_float (group m 1) of
             Inl e \<Rightarrow> Inl e
           | Inr sz \<Rightarrow> if 10 \<le> sz \<and> sz \<le> 30 then Inr (Some sz)
                       else size_loop pats title)
      | None \<Rightarrow> size_loop pats title)"

definition parse_screen_size :: "string \<Rightarrow> error + rat option" where
  "parse_screen_size title = size_loop size_patterns title"

subsection \<open>The category filter\<close>

definition EXCLUDE_KEYWORDS :: "string list" where
  "EXCLUDE_KEYWORDS =
     [''stand'', ''holder'', ''mount'', ''bracket'', ''case'', ''sleeve'', ''bag'',
      ''cable'', ''adapter'', ''hub'', ''dock'', ''charger'', ''stylus'', ''pen'',
      ''keyboard'', ''mouse'', ''arm'', ''riser'', ''protector'', ''film'', ''cleaning'',
      ''cover'', ''skin'']"

definition monitor_terms :: "string list" where
  "monitor_terms = [''monitor'', ''display'', ''screen'']"

text \<open>The loop of \<^verbatim>\<open>_is_actual_monitor\<close> over the keywords, with its two early returns.\<close>

fun exclude_loop :: "string list \<Rightarrow> string \<Rightarrow> bool \<Rightarrow> bool" where
  "exclude_loop [] lower has_monitor = has_monitor"
| "exclude_loop (kw # kws) lower has_monitor =
     (if startswith lower kw \<or> py_in ('' '' @ kw @ '' for '') lower
         \<or> py_in ('' '' @ kw @ '','') lower
      then False
      else if py_in kw lower \<and> \<not> has_monitor then False
      else exclude_loop kws lower has_monitor)"

definition is_actual_monitor :: "string \<Rightarrow> bool" where
  "is_actual_monitor title =
     (let lower = py_lower title;
          has_monitor = list_ex (\<lambda>t. py_in t lower) monitor_terms
      in exclude_loop EXCLUDE_KEYWORDS lower has_monitor)"


section \<open>amazon_search.py: filter, deduplicate, rank\<close>

text \<open>
  A raw listing is the scraper's dictionary of text fields (a field may be absent; the
  values are strings, as the scraper builds them); \<^verbatim>\<open>r.get(k, "")\<close> reads a field. A
  parsed listing is the dictionary built by \<^verbatim>\<open>_filter_and_parse\<close>; \<^verbatim>\<open>_rank\<close> adds the
  score to it.
\<close>

type_synonym raw_listing = "string \<rightharpoonup> string"

definition field :: "raw_listing \<Rightarrow> string \<Rightarrow> string" where
  "field r k = (case r k of Some v \<Rightarrow> v | None \<Rightarrow> [])"

record listing =
  title :: string
  price :: "rat option"
  rating :: "rat option"
  reviews :: int
  screen_size :: "rat option"
  url :: string
  asin :: string

record scored = listing +
  score :: rat

definition category_rejects :: "bool \<Rightarrow> raw_listing \<Rightarrow> bool" where
  "category_rejects monitor_only r = (monitor_only \<and> \<not> is_actual_monitor (field r ''title''))"

definition budget_rejects :: "rat option \<Rightarrow> rat \<Rightarrow> bool" where
  "budget_rejects pr budget = (case pr of None \<Rightarrow> False | Some v \<Rightarrow> v > budget)"

definition listing_url :: "string \<Rightarrow> string \<Rightarrow> string" where
  "listing_url a href =
     (if a \<noteq> [] then ''https://www.amazon.ca/dp/'' @ a
      else if startswith href ''/'' then ''https://www.amazon.ca'' @ href else href)"

text \<open>The dictionary appended for a listing that passed both filters.\<close>

definition parse_one :: "raw_listing \<Rightarrow> rat option \<Rightarrow> error + listing" where
  "parse_one r pr =
     (case parse_rating (field r ''rating'') of
        Inl e \<Rightarrow> Inl e
      | Inr rt \<Rightarrow>
         (case parse_reviews (field r ''reviews'') of
            Inl e \<Rightarrow> Inl e
          | Inr rv \<Rightarrow>
             (case parse_screen_size (field r ''title'') of
                Inl e \<Rightarrow> Inl e
              | Inr sz \<Rightarrow>
                  Inr \<lparr>title = clean_title (field r ''title''), price = pr, rating = rt,
                       reviews = rv, screen_size = sz,
                       url = listing_url (field r ''asin'') (field r ''href''),
                       asin = field r ''asin''\<rparr>)))"

fun filter_and_parse :: "raw_listing list \<Rightarrow> rat \<Rightarrow> bool \<Rightarrow> error + listing list" where
  "filter_and_parse [] budget monitor_only = Inr []"
| "filter_and_parse (r # raw) budget monitor_only =
     (if category_rejects monitor_only r then filter_and_parse raw budget monitor_only
      else let pr = parse_price (field r ''price'') in
        if budget_rejects pr budget then filter_and_parse raw budget monitor_only
        else case parse_one r pr of
               Inl e \<Rightarrow> Inl e
             | Inr p \<Rightarrow>
                (case filter_and_parse raw budget monitor_only of
                   Inl e \<Rightarrow> Inl e
                 | Inr ps \<Rightarrow> Inr (p # ps)))"

subsection \<open>Ranking\<close>

text \<open>\<^verbatim>\<open>max((p["reviews"] for p in products if p["reviews"]), default=1)\<close>\<close>

definition max_reviews :: "listing list \<Rightarrow> int" where
  "max_reviews ps =
     (case filter (\<lambda>n. n \<noteq> 0) (map reviews ps) of [] \<Rightarrow> 1 | n # ns \<Rightarrow> fold max ns n)"

text \<open>\<^verbatim>\<open>round(x, 1)\<close>: to the nearest tenth, a tie going to the even neighbour.\<close>

definition py_round1 :: "rat \<Rightarrow> rat" where
  "py_round1 x =
     (let y = x * 10; f = \<lfloor>y\<rfloor>; d = y - of_int f
      in of_int (if d < 1 / 2 then f else if 1 / 2 < d then f + 1
                 else if even f then f else f + 1) / 10)"

text \<open>The four additions of the loop body of \<^verbatim>\<open>_rank\<close>, before rounding.\<close>

definition popularity_points :: "int \<Rightarrow> listing \<Rightarrow> rat" where
  "popularity_points mr p =
     (if reviews p > 0 then (of_int (reviews p) / of_int mr) * 45 else 0)"

definition quality_points :: "listing \<Rightarrow> rat" where
  "quality_points p =
     (case rating p of
        None \<Rightarrow> 0
      | Some rt \<Rightarrow> if rt \<noteq> 0 then (rt / 5) * 35 * min (of_int (reviews p) / 50) 1 else 0)"

definition price_points :: "listing \<Rightarrow> rat" where
  "price_points p =
     (case price p of
        None \<Rightarrow> 0
      | Some pr \<Rightarrow> if pr \<noteq> 0 \<and> pr > 0 then max 0 (1 - pr / 1000) * 10 else 0)"

definition size_points :: "listing \<Rightarrow> rat" where
  "size_points p = (case screen_size p of None \<Rightarrow> 0 | Some sz \<Rightarrow> if sz \<noteq> 0 then 10 else 0)"

definition score_of :: "int \<Rightarrow> listing \<Rightarrow> rat" where
  "score_of mr p =
     py_round1 (popularity_points mr p + quality_points p + price_points p + size_points p)"

definition with_score :: "int \<Rightarrow> listing \<Rightarrow> scored" where
  "with_score mr p =
     \<lparr>title = title p, price = price p, rating = rating p, reviews = reviews p,
      screen_size = screen_size p, url = url p, asin = asin p, score = score_of mr p\<rparr>"

text \<open>
  \<^verbatim>\<open>products.sort(key=lambda x: x["score"], reverse=True)\<close>: Python's sort is stable and
  \<^verbatim>\<open>reverse=True\<close> keeps the original order of elements with equal keys, which is a
  stable sort on the negated key.
\<close>

definition rank :: "listing list \<Rightarrow> scored list" where
  "rank products =
     (let mr = max_reviews products
      in sort_key (\<lambda>q. - score q) (map (with_score mr) products))"

subsection \<open>Deduplication\<close>

definition title_key :: "listing \<Rightarrow> string" where
  "title_key p = re_sub pat_spaces [RLit '' ''] (py_strip (py_lower (title p)))"

fun dedup_loop ::
  "listing list \<Rightarrow> string set \<Rightarrow> string set \<Rightarrow> listing list \<Rightarrow> listing list" where
  "dedup_loop [] seen_asins seen_titles unique = unique"
| "dedup_loop (p # ps) seen_asins seen_titles unique =
     (if asin p \<noteq> [] \<and> asin p \<in> seen_asins then dedup_loop ps seen_asins seen_titles unique
      else if title_key p \<in> seen_titles then dedup_loop ps seen_asins seen_titles unique
      else dedup_loop ps
             (if asin p \<noteq> [] then insert (asin p) seen_asins else seen_asins)
             (insert (title_key p) seen_titles)
             (unique @ [p]))"

definition deduplicate :: "listing list \<Rightarrow> listing list" where
  "deduplicate products = dedup_loop products {} {} []"

subsection \<open>The data path of search_amazon\<close>

definition search_core :: "raw_listing list \<Rightarrow> string \<Rightarrow> rat \<Rightarrow> error + scored list" where
  "search_core raw query budget =
     (let is_monitor_search = list_ex (\<lambda>t. py_in t (py_lower query)) monitor_terms
      in case filter_and_parse raw budget is_monitor_search of
           Inl e \<Rightarrow> Inl e
         | Inr filtered \<Rightarrow> Inr (take 10 (rank (deduplicate filtered))))"

section \<open>parser.py: the command interpreter\<close>

datatype intent = Search | Add | Cart | Results | Status | Help | Unknown

datatype items = All | Indices "int list"

record command =
  intent :: intent
  query :: string
  budget :: rat
  budget_specified :: bool
  items :: items
  raw :: string

subsection \<open>The add branch\<close>

definition word_map :: "(string \<times> int) list" where
  "word_map =
     [(''one'', 1), (''two'', 2), (''three'', 3), (''four'', 4), (''five'', 5),
      (''first'', 1), (''second'', 2), (''third'', 3), (''fourth'', 4), (''fifth'', 5)]"

fun int_list :: "string list \<Rightarrow> error + int list" where
  "int_list [] = Inr []"
| "int_list (n # ns) =
     (case py_int n of
        Inl e \<Rightarrow> Inl e
      | Inr i \<Rightarrow> (case int_list ns of Inl e \<Rightarrow> Inl e | Inr is \<Rightarrow> Inr (i # is)))"

definition add_items :: "string \<Rightarrow> error + items" where
  "add_items rest =
     (if rest = [] \<or> rest = ''all'' \<or> py_in ''all'' rest then Inr All
      else let nums = re_findall (Plus Dig) rest in
        if nums \<noteq> [] then (case int_list nums of Inl e \<Rightarrow> Inl e | Inr ns \<Rightarrow> Inr (Indices ns))
        else let found = map snd (filter (\<lambda>wn. py_in (fst wn) rest) word_map) in
          if found = [] then Inr All else Inr (Indices found))"

subsection \<open>The search branch\<close>

definition search_triggers :: "string list" where
  "search_triggers =
     [''search'', ''find'', ''look for'', ''looking for'', ''get me'', ''find me'',
      ''show me'', ''i want'', ''i need'', ''buy'', ''shop for'']"

text \<open>The trigger loop: the first trigger that starts the text is cut off.\<close>

fun strip_trigger :: "string list \<Rightarrow> string \<Rightarrow> string" where
  "strip_trigger [] lower = lower"
| "strip_trigger (t # ts) lower =
     (if startswith lower t then py_strip (drop (length t) lower) else strip_trigger ts lower)"

definition amount :: regex where
  "amount = Group 1 (Seq (Plus Dig) (Opt (Seq (Lit CHR ''.'') (Plus Dig))))"

definition pat_currency :: regex where
  "pat_currency = Seqs [Lit CHR ''$'', Star Ws, amount]"

definition pat_currency_word :: regex where
  "pat_currency_word =
     Seqs [amount, Star Ws,
           Alts [Seq (Str ''dollar'') (Opt (Lit CHR ''s'')),
                 Seq (Str ''buck'') (Opt (Lit CHR ''s'')),
                 Str ''cad'', Lit CHR ''$'']]"

definition pat_qualifier_before :: regex where
  "pat_qualifier_before =
     Seqs [Alts [Str ''under'', Str ''below'', Str ''max'', Str ''budget'', Str ''less than'',
                 Str ''up to''],
           Star Ws, Opt (Lit CHR ''$''), Star Ws, amount]"

definition pat_qualifier_after :: regex where
  "pat_qualifier_after =
     Seqs [amount, Star Ws, Alts [Str ''max'', Str ''budget'', Str ''limit'']]"

definition budget_patterns :: "regex list" where
  "budget_patterns =
     [pat_currency, pat_currency_word, pat_qualifier_before, pat_qualifier_after]"

text \<open>
  The loop over the budget patterns: the first pattern found in the text gives the budget
  and the text with every match of that pattern removed; \<open>None\<close> is the loop's
  \<^verbatim>\<open>else\<close> case.
\<close>

fun budget_loop :: "regex list \<Rightarrow> string \<Rightarrow> error + (rat \<times> string) option" where
  "budget_loop [] s = Inr None"
| "budget_loop (pat # pats) s =
     (case re_search pat s of
        Some m \<Rightarrow>
          (case py_float (group m 1) of
             Inl e \<Rightarrow> Inl e
           | Inr b \<Rightarrow> Inr (Some (b, py_strip (re_sub pat [] s))))
      | None \<Rightarrow> budget_loop pats s)"

definition pat_all_digits :: regex where
  "pat_all_digits = Seqs [Bol, Plus Dig, Eol]"

text \<open>The \<^verbatim>\<open>else\<close> case: a last word that is a number above 10.\<close>

definition last_word_budget :: "string \<Rightarrow> error + (rat \<times> string) option" where
  "last_word_budget s =
     (let words = py_split s in
      if words \<noteq> [] \<and> re_match pat_all_digits (last words) \<noteq> None
      then (case py_int (last words) of
              Inl e \<Rightarrow> Inl e
            | Inr n \<Rightarrow>
                if n > 10
                then (case py_float (last words) of
                        Inl e \<Rightarrow> Inl e
                      | Inr b \<Rightarrow> Inr (Some (b, join_space (butlast words))))
                else Inr None)
      else Inr None)"

definition pat_filler :: regex where
  "pat_filler =
     Seqs [WordB,
           Group 1 (Alts [Str ''a'', Str ''an'', Str ''the'', Str ''me'', Str ''for'', Str ''on'',
                          Str ''amazon'', Str ''please'', Str ''good'', Str ''best'',
                          Str ''nice'', Str ''great'']),
           WordB]"

definition finish_query :: "string \<Rightarrow> string" where
  "finish_query s =
     (let q = py_strip (re_sub pat_spaces [RLit '' ''] (re_sub pat_filler [] s))
      in if q = [] then ''portable monitor'' else q)"

definition search_command :: "command \<Rightarrow> string \<Rightarrow> error + command" where
  "search_command result search_rest =
     (case budget_loop budget_patterns search_rest of
        Inl e \<Rightarrow> Inl e
      | Inr (Some (b, rest)) \<Rightarrow>
          Inr (result\<lparr>intent := Search, budget := b, budget_specified := True,
                      query := finish_query rest\<rparr>)
      | Inr None \<Rightarrow>
         (case last_word_budget search_rest of
            Inl e \<Rightarrow> Inl e
          | Inr (Some (b, rest)) \<Rightarrow>
              Inr (result\<lparr>intent := Search, budget := b, budget_specified := True,
                          query := finish_query rest\<rparr>)
          | Inr None \<Rightarrow> Inr (result\<lparr>intent := Search, query := finish_query search_rest\<rparr>)))"

subsection \<open>parse_message\<close>

text \<open>The message as the rules see it: stripped, lower-cased, a leading slash removed.\<close>

definition lowered :: "string \<Rightarrow> string" where
  "lowered message =
     (let lower = py_lower (py_strip message)
      in if startswith lower ''/'' then drop 1 lower else lower)"

definition initial_result :: "string \<Rightarrow> command" where
  "initial_result message =
     \<lparr>intent = Unknown, query = [], budget = 9999, budget_specified = False,
      items = Indices [], raw = py_strip message\<rparr>"

definition parse_message :: "string \<Rightarrow> error + command" where
  "parse_message message =
     (let lower = lowered message; result = initial_result message
      in if lower \<in> set [''help'', ''start'', ''h''] then Inr (result\<lparr>intent := Help\<rparr>)
         else if lower \<in> set [''status'', ''ping''] then Inr (result\<lparr>intent := Status\<rparr>)
         else if lower \<in> set [''cart'', ''showcart'', ''show cart'', ''view cart'', ''my cart'']
           then Inr (result\<lparr>intent := Cart\<rparr>)
         else if lower \<in> set [''results'', ''show results'', ''last'', ''last results'']
           then Inr (result\<lparr>intent := Results\<rparr>)
         else if startswith lower ''add''
           then (case add_items (py_strip (drop 3 lower)) of
                   Inl e \<Rightarrow> Inl e
                 | Inr its \<Rightarrow> Inr (result\<lparr>intent := Add, items := its\<rparr>))
         else search_command result (strip_trigger search_triggers lower))"


section \<open>Auxiliary notions used in the statements\<close>

text \<open>The non-empty identifiers of a list of listings, in order.\<close>

definition asin_keys :: "listing list \<Rightarrow> string list" where
  "asin_keys ps = filter (\<lambda>a. a \<noteq> []) (map asin ps)"

text \<open>
  The acceptance rule of the category filter as the specification words it: a category
  keyword occurs in the title, and no exclusion keyword is the title's first word, occurs
  in the phrase "kw for " or is directly followed by a comma. (Its last clause, about
  titles without a category keyword, adds nothing once a category keyword is required.)
  The title is compared in lower case, as the code does.
\<close>

definition first_word :: "string \<Rightarrow> string" where
  "first_word s = (case py_split s of [] \<Rightarrow> [] | w # _ \<Rightarrow> w)"

definition spec_category_accepts :: "bool \<Rightarrow> string \<Rightarrow> bool" where
  "spec_category_accepts flag t =
     (if flag
      then list_ex (\<lambda>k. py_in k (py_lower t)) monitor_terms
           \<and> \<not> list_ex (\<lambda>kw. first_word (py_lower t) = kw
                             \<or> py_in (kw @ '' for '') (py_lower t)
                             \<or> py_in (kw @ '','') (py_lower t)) EXCLUDE_KEYWORDS
      else True)"

text \<open>A pattern without capturing groups.\<close>

fun no_groups :: "regex \<Rightarrow> bool" where
  "no_groups (Seq a b) = (no_groups a \<and> no_groups b)"
| "no_groups (Alt a b) = (no_groups a \<and> no_groups b)"
| "no_groups (Star r) = no_groups r"
| "no_groups (Group n r) = False"
| "no_groups r = True"

text \<open>A bare integer: a non-empty run of decimal digits.\<close>

definition digits :: "string \<Rightarrow> bool" where
  "digits w = (w \<noteq> [] \<and> set w \<subseteq> set digit_chars)"

text \<open>
  A decimal numeral: digits, or digits, a dot and more digits (possibly none). The
  numbers of the budget patterns, \<^verbatim>\<open>\d+(?:\.\d+)?\<close>, and of the screen-size patterns,
  \<^verbatim>\<open>\d+\.?\d*\<close>, have this form.
\<close>

definition valid_number :: "string \<Rightarrow> bool" where
  "valid_number w =
     (\<exists>a b. digits a \<and> set b \<subseteq> set digit_chars \<and> (w = a \<or> w = a @ CHR ''.'' # b))"

text \<open>Group 1 holds such a numeral; a pattern all of whose matches end with group 1 set so.\<close>

definition has_number :: "groups \<Rightarrow> bool" where
  "has_number g = (\<exists>w. map_of g 1 = Some w \<and> valid_number w)"

definition establishes :: "regex \<Rightarrow> bool" where
  "establishes r = (\<forall>st st'. st' \<in> set (ms r st) \<longrightarrow> has_number (snd (snd st')))"


text \<open>The text the budget patterns run over: the lowered message after the trigger loop.\<close>

definition search_text :: "string \<Rightarrow> string" where
  "search_text msg = strip_trigger search_triggers (lowered msg)"




section \<open>Facts about the matcher\<close>

text \<open>
  The equations of \<open>ms\<close> for a starred pattern and of the two scanning loops call
  themselves on their right-hand sides, so they are unfolded by hand.
\<close>

declare ms.simps(6) [simp del]
declare sub_from.simps [simp del]
declare findall_from.simps [simp del]

lemma ms_Star_Cls_Nil: "ms (Star (Cls cs)) (p, [], g) = [(p, [], g)]"
  by (simp add: ms.simps(6))

lemma ms_Star_Cls_Cons:
  "ms (Star (Cls cs)) (p, x # xs, g) =
     (if x \<in> set cs then ms (Star (Cls cs)) (x # p, xs, g) @ [(p, x # xs, g)]
      else [(p, x # xs, g)])"
  by (simp add: ms.simps(6))

lemma ms_Star_Cls_hd:
  "\<exists>rest. ms (Star (Cls cs)) (p, s, g) =
     (rev (takeWhile (\<lambda>c. c \<in> set cs) s) @ p, dropWhile (\<lambda>c. c \<in> set cs) s, g) # rest"
proof (induction s arbitrary: p)
  case Nil
  show ?case by (simp add: ms_Star_Cls_Nil)
next
  case (Cons x xs)
  show ?case
  proof (cases "x \<in> set cs")
    case True
    from Cons[of "x # p"] obtain rest where
      "ms (Star (Cls cs)) (x # p, xs, g) =
        (rev (takeWhile (\<lambda>c. c \<in> set cs) xs) @ x # p, dropWhile (\<lambda>c. c \<in> set cs) xs, g) # rest"
      by blast
    with True show ?thesis by (simp add: ms_Star_Cls_Cons)
  next
    case False
    then show ?thesis by (simp add: ms_Star_Cls_Cons)
  qed
qed

lemma ms_Star_Cls_mem:
  "st' \<in> set (ms (Star (Cls cs)) (p, s, g)) \<Longrightarrow>
   \<exists>w. s = w @ fst (snd st') \<and> set w \<subseteq> set cs \<and> fst st' = rev w @ p \<and> snd (snd st') = g"
proof (induction s arbitrary: p)
  case Nil
  then show ?case by (simp add: ms_Star_Cls_Nil)
next
  case (Cons x xs)
  show ?case
  proof (cases "x \<in> set cs \<and> st' \<in> set (ms (Star (Cls cs)) (x # p, xs, g))")
    case True
    from Cons.IH[of "x # p"] True obtain w where
      "xs = w @ fst (snd st')" "set w \<subseteq> set cs" "fst st' = rev w @ x # p" "snd (snd st') = g"
      by blast
    with True show ?thesis by (intro exI[of _ "x # w"]) simp
  next
    case False
    with Cons.prems have "st' = (p, x # xs, g)"
      by (auto simp: ms_Star_Cls_Cons split: if_splits)
    then show ?thesis by (intro exI[of _ "[]"]) simp
  qed
qed

lemma ms_Plus_Cls_mem:
  "st' \<in> set (ms (Plus (Cls cs)) (p, s, g)) \<Longrightarrow>
   \<exists>w. w \<noteq> [] \<and> s = w @ fst (snd st') \<and> set w \<subseteq> set cs \<and> fst st' = rev w @ p \<and> snd (snd st') = g"
proof -
  assume a: "st' \<in> set (ms (Plus (Cls cs)) (p, s, g))"
  then obtain x xs where s: "s = x # xs" and x: "x \<in> set cs"
    and m: "st' \<in> set (ms (Star (Cls cs)) (x # p, xs, g))"
    by (cases s) (auto simp: Plus_def split: if_splits)
  from ms_Star_Cls_mem[OF m] obtain w where
    "xs = w @ fst (snd st')" "set w \<subseteq> set cs" "fst st' = rev w @ x # p" "snd (snd st') = g"
    by blast
  with s x show ?thesis by (intro exI[of _ "x # w"]) simp
qed

lemma ms_no_groups:
  "no_groups r \<Longrightarrow> st' \<in> set (ms r st) \<Longrightarrow> snd (snd st') = snd (snd st)"
proof (induction r st arbitrary: st' rule: ms.induct)
  case (6 r p s g)
  from "6.prems"(2) consider "st' = (p, s, g)"
    | st1 where "st1 \<in> set (ms r (p, s, g))" "length (fst (snd st1)) < length s"
        "st' \<in> set (ms (Star r) st1)"
    by (auto simp: ms.simps(6) split: if_splits)
  then show ?case
  proof cases
    case 1
    then show ?thesis by simp
  next
    case 2
    from "6.IH"(1)[OF _ 2(1)] "6.prems"(1) have "snd (snd st1) = g" by simp
    moreover from "6.IH"(2)[OF 2(1) 2(2) "6.prems"(1) 2(3)] have "snd (snd st') = snd (snd st1)" .
    ultimately show ?thesis by simp
  qed
qed (auto split: list.splits if_splits option.splits)

subsection \<open>Numbers that int and float accept\<close>

lemma digit_not_ws: "c \<in> set digit_chars \<Longrightarrow> \<not> is_ws c"
  by (auto simp: digit_chars_def is_ws_def ws_chars_def)

lemma digit_not_dot: "c \<in> set digit_chars \<Longrightarrow> c \<noteq> CHR ''.''"
  by (auto simp: digit_chars_def)

lemma strip_end_keep: "s \<noteq> [] \<Longrightarrow> \<not> is_ws (last s) \<Longrightarrow> rev (dropWhile is_ws (rev s)) = s"
  by (cases s rule: rev_cases) auto

lemma py_strip_id: "s \<noteq> [] \<Longrightarrow> \<not> is_ws (hd s) \<Longrightarrow> \<not> is_ws (last s) \<Longrightarrow> py_strip s = s"
proof -
  assume a: "s \<noteq> []" "\<not> is_ws (hd s)" "\<not> is_ws (last s)"
  then have "dropWhile is_ws s = s" by (cases s) auto
  moreover have "rev (dropWhile is_ws (rev s)) = s" using a by (intro strip_end_keep)
  ultimately show ?thesis by (simp add: py_strip_def)
qed

lemma digits_strip: "digits w \<Longrightarrow> py_strip w = w"
  unfolding digits_def
  by (rule py_strip_id) (auto simp: digit_not_ws subset_iff)

lemma digits_strip_nl: "digits w \<Longrightarrow> py_strip (w @ [CHR 0x0A]) = w"
proof -
  assume d: "digits w"
  then have "\<not> is_ws (hd (w @ [CHR 0x0A]))" by (cases w) (auto simp: digits_def digit_not_ws)
  then have "dropWhile is_ws (w @ [CHR 0x0A]) = w @ [CHR 0x0A]" using d
    by (cases w) (auto simp: digits_def)
  moreover have "is_ws (CHR 0x0A)" by (simp add: is_ws_def ws_chars_def)
  moreover have "rev (dropWhile is_ws (rev w)) = w"
    using d by (intro strip_end_keep) (auto simp: digits_def digit_not_ws subset_iff)
  ultimately show ?thesis by (simp add: py_strip_def)
qed

lemma py_int_digits: "digits w \<Longrightarrow> py_int w = Inr (int (digits_val w))"
  by (simp add: py_int_def digits_strip Let_def) (auto simp: digits_def list_all_iff)

lemma py_int_digits_nl: "digits w \<Longrightarrow> py_int (w @ [CHR 0x0A]) = Inr (int (digits_val w))"
  by (simp add: py_int_def digits_strip_nl Let_def) (auto simp: digits_def list_all_iff)

lemma takeWhile_digits: "set a \<subseteq> set digit_chars \<Longrightarrow> takeWhile (\<lambda>c. c \<noteq> CHR ''.'') (a @ CHR ''.'' # b) = a"
  by (induction a) (auto simp: digit_not_dot)

lemma dropWhile_digits: "set a \<subseteq> set digit_chars \<Longrightarrow> dropWhile (\<lambda>c. c \<noteq> CHR ''.'') (a @ CHR ''.'' # b) = CHR ''.'' # b"
  by (induction a) (auto simp: digit_not_dot)

lemma takeWhile_digits0: "set a \<subseteq> set digit_chars \<Longrightarrow> takeWhile (\<lambda>c. c \<noteq> CHR ''.'') a = a"
  by (induction a) (auto simp: digit_not_dot)

lemma dropWhile_digits0: "set a \<subseteq> set digit_chars \<Longrightarrow> dropWhile (\<lambda>c. c \<noteq> CHR ''.'') a = []"
  by (induction a) (auto simp: digit_not_dot)

lemma py_float_digits: "digits w \<Longrightarrow> py_float w = Inr (of_nat (digits_val w))"
  by (simp add: py_float_def digits_strip Let_def)
     (auto simp: digits_def list_all_iff takeWhile_digits0 dropWhile_digits0 digits_val_def)

lemma py_float_digits_nl: "digits w \<Longrightarrow> py_float (w @ [CHR 0x0A]) = Inr (of_nat (digits_val w))"
  by (simp add: py_float_def digits_strip_nl Let_def)
     (auto simp: digits_def list_all_iff takeWhile_digits0 dropWhile_digits0 digits_val_def)

lemma py_float_amount: "valid_number w \<Longrightarrow> \<exists>v. py_float w = Inr v"
proof -
  assume "valid_number w"
  then obtain a b where a: "digits a" and b: "set b \<subseteq> set digit_chars"
    and w: "w = a \<or> w = a @ CHR ''.'' # b"
    by (auto simp: valid_number_def)
  from w show ?thesis
  proof
    assume "w = a"
    with a show ?thesis by (simp add: py_float_digits)
  next
    assume wb: "w = a @ CHR ''.'' # b"
    have dot: "\<not> is_ws CHR ''.''" by (simp add: is_ws_def ws_chars_def)
    have "\<not> is_ws (last (CHR ''.'' # b))"
      using b dot by (cases b rule: rev_cases) (auto simp: digit_not_ws subset_iff)
    with wb have "w \<noteq> []" "\<not> is_ws (hd w)" "\<not> is_ws (last w)"
      using a by (auto simp: digits_def digit_not_ws subset_iff hd_append)
    then have "py_strip w = w" by (rule py_strip_id)
    with wb a b show ?thesis
      by (auto simp: py_float_def Let_def takeWhile_digits dropWhile_digits digits_def list_all_iff)
  qed
qed

subsection \<open>The budget patterns always capture a number\<close>

lemma ms_Seq_mem:
  "st'' \<in> set (ms (Seq a b) st) \<longleftrightarrow> (\<exists>st' \<in> set (ms a st). st'' \<in> set (ms b st'))"
  by auto

lemma ms_Lit_mem:
  "st' \<in> set (ms (Lit c) (p, s, g)) \<Longrightarrow> s = c # fst (snd st') \<and> snd (snd st') = g"
  by (cases s) (auto simp: Lit_def split: if_splits)


lemma ms_Group_mem:
  "st' \<in> set (ms (Group n r) (p, s, g)) \<Longrightarrow>
   \<exists>st1 \<in> set (ms r (p, s, g)).
     snd (snd st') = (n, take (length s - length (fst (snd st1))) s) # snd (snd st1)"
  by force



lemma establishes_Seq_left: "establishes a \<Longrightarrow> no_groups b \<Longrightarrow> establishes (Seq a b)"
  unfolding establishes_def ms_Seq_mem using ms_no_groups by metis

lemma no_groups_Str: "no_groups (Str s)"
  by (induction s) (auto simp: Str_def Lit_def)


lemma search_from_Some:
  "search_from r p s = Some m \<Longrightarrow> \<exists>st st' w. st' \<in> set (ms r st) \<and> m = (0, w) # snd (snd st')"
proof (induction s arbitrary: p)
  case Nil
  then show ?case by (auto split: list.splits) (metis list.set_intros(1))
next
  case (Cons x xs)
  show ?case
  proof (cases "ms r (p, x # xs, [])")
    case Nil
    with Cons show ?thesis by simp
  next
    case (Cons st rest)
    with Cons.prems have "m = (0, take (length (x # xs) - length (fst (snd st))) (x # xs)) # snd (snd st)"
      by simp
    moreover from Cons have "st \<in> set (ms r (p, x # xs, []))" by simp
    ultimately show ?thesis by blast
  qed
qed

lemma search_amount:
  "establishes pat \<Longrightarrow> re_search pat s = Some m \<Longrightarrow> \<exists>v. py_float (group m 1) = Inr v"
proof -
  assume e: "establishes pat" and m: "re_search pat s = Some m"
  from search_from_Some[OF m[unfolded re_search_def]] obtain st st' w where
    "st' \<in> set (ms pat st)" "m = (0, w) # snd (snd st')" by blast
  with e[unfolded establishes_def, rule_format, of st' st]
  have "has_number (snd (snd st'))" "map_of m 1 = map_of (snd (snd st')) 1"
    by simp_all
  then obtain a where "group m 1 = a" "valid_number a"
    by (auto simp: has_number_def group_def)
  then show ?thesis using py_float_amount by blast
qed


subsection \<open>The screen-size parser always returns\<close>

lemma ms_Opt_mem: "st' \<in> set (ms (Opt r) st) \<Longrightarrow> st' = st \<or> st' \<in> set (ms r st)"
  by (auto simp: Opt_def)

lemma ms_num_body:
  assumes "st' \<in> set (ms (Seqs [Plus Dig, Opt (Lit CHR ''.''), Star Dig]) (p, s, g))"
  shows "\<exists>w. valid_number w \<and> s = w @ fst (snd st')"
proof -
  have "Seqs [Plus Dig, Opt (Lit CHR ''.''), Star Dig]
        = Seq (Plus Dig) (Seq (Opt (Lit CHR ''.'')) (Seq (Star Dig) Eps))"
    by (simp add: Seqs_def)
  with assms obtain sa sb where sa: "sa \<in> set (ms (Plus Dig) (p, s, g))"
    and sb: "sb \<in> set (ms (Opt (Lit CHR ''.'')) sa)"
    and sc: "st' \<in> set (ms (Star Dig) sb)"
    unfolding ms_Seq_mem by auto
  from ms_Plus_Cls_mem[OF sa[unfolded Dig_def]] obtain a where
    a: "a \<noteq> []" "s = a @ fst (snd sa)" "set a \<subseteq> set digit_chars"
    by blast
  from ms_Star_Cls_mem[of st' digit_chars "fst sb" "fst (snd sb)" "snd (snd sb)"] sc
  obtain b where b: "fst (snd sb) = b @ fst (snd st')" "set b \<subseteq> set digit_chars"
    by (auto simp: Dig_def)
  from ms_Opt_mem[OF sb] show ?thesis
  proof
    assume "sb = sa"
    with a b have "s = (a @ b) @ fst (snd st')" "digits (a @ b)" by (simp_all add: digits_def)
    then show ?thesis
      unfolding valid_number_def
      by (intro exI[of _ "a @ b"] conjI exI[of _ "a @ b"] exI[of _ "[]"]) simp_all
  next
    assume "sb \<in> set (ms (Lit CHR ''.'') sa)"
    from ms_Lit_mem[of sb "CHR ''.''" "fst sa" "fst (snd sa)" "snd (snd sa)"] this
    have "fst (snd sa) = CHR ''.'' # fst (snd sb)" by simp
    with a b have "s = (a @ CHR ''.'' # b) @ fst (snd st')" "digits a" by (simp_all add: digits_def)
    with b(2) show ?thesis
      unfolding valid_number_def
      by (intro exI[of _ "a @ CHR ''.'' # b"] conjI exI[of _ a] exI[of _ b]) simp_all
  qed
qed

lemma establishes_num_pat: "establishes num_pat"
proof -
  have "has_number (snd (snd st'))" if m: "st' \<in> set (ms num_pat st)" for st st'
  proof -
    obtain p s g where st: "st = (p, s, g)" by (cases st) auto
    from ms_Group_mem[OF m[unfolded num_pat_def st]] obtain st1 where
      st1: "st1 \<in> set (ms (Seqs [Plus Dig, Opt (Lit CHR ''.''), Star Dig]) (p, s, g))"
      and eq: "snd (snd st') = (1, take (length s - length (fst (snd st1))) s) # snd (snd st1)"
      by blast
    from ms_num_body[OF st1] obtain w where w: "valid_number w" "s = w @ fst (snd st1)" by blast
    then have "take (length s - length (fst (snd st1))) s = w" by simp
    with eq w show ?thesis by (simp add: has_number_def)
  qed
  then show ?thesis by (simp add: establishes_def)
qed

lemma establishes_size_patterns: "\<forall>pat \<in> set size_patterns. establishes pat"
proof -
  have e: "no_groups b \<Longrightarrow> establishes (Seq num_pat b)" for b
    by (rule establishes_Seq_left[OF establishes_num_pat])
  show ?thesis
    unfolding size_patterns_def Seqs_def
    by (simp add: e no_groups_Str Ws_def Lit_def Opt_def)
qed

lemma size_loop_total:
  "\<forall>pat \<in> set pats. establishes pat \<Longrightarrow> \<exists>r. size_loop pats t = Inr r"
proof (induction pats)
  case Nil
  show ?case by simp
next
  case (Cons pat pats)
  then obtain r where r: "size_loop pats t = Inr r" by auto
  show ?case
  proof (cases "re_search pat t")
    case None
    with r show ?thesis by simp
  next
    case (Some m)
    from Cons.prems have "establishes pat" by simp
    from search_amount[OF this Some] obtain v where "py_float (group m 1) = Inr v" by blast
    with Some r show ?thesis by simp
  qed
qed

lemma parse_screen_size_total: "\<exists>r. parse_screen_size t = Inr r"
  unfolding parse_screen_size_def by (rule size_loop_total[OF establishes_size_patterns])

subsection \<open>Words, and the all-digits test\<close>

lemma split_acc_words:
  "\<forall>c \<in> set acc. \<not> is_ws c \<Longrightarrow> w \<in> set (split_acc acc s) \<Longrightarrow>
   w \<noteq> [] \<and> (\<forall>c \<in> set w. \<not> is_ws c)"
proof (induction s arbitrary: acc)
  case Nil
  then show ?case by (cases "acc = []") auto
next
  case (Cons c cs)
  show ?case
  proof (cases "is_ws c")
    case True
    with Cons.prems(2) have "w = acc \<and> acc \<noteq> [] \<or> w \<in> set (split_acc [] cs)"
      by (cases "acc = []") auto
    then show ?thesis
    proof
      assume "w = acc \<and> acc \<noteq> []"
      with Cons.prems(1) show ?thesis by simp
    next
      assume "w \<in> set (split_acc [] cs)"
      with Cons.IH[of "[]"] show ?thesis by simp
    qed
  next
    case False
    with Cons.prems(2) have m: "w \<in> set (split_acc (acc @ [c]) cs)" by simp
    from False Cons.prems(1) have "\<forall>d \<in> set (acc @ [c]). \<not> is_ws d" by simp
    from Cons.IH[OF this m] show ?thesis .
  qed
qed

lemma py_split_words: "w \<in> set (py_split s) \<Longrightarrow> w \<noteq> [] \<and> (\<forall>c \<in> set w. \<not> is_ws c)"
  unfolding py_split_def using split_acc_words[of "[]" w s] by simp

lemma ms_Bol_mem: "st' \<in> set (ms Bol (p, s, g)) \<Longrightarrow> st' = (p, s, g)"
  by (auto split: if_splits)

lemma ms_Eol_mem:
  "st' \<in> set (ms Eol (p, s, g)) \<Longrightarrow> st' = (p, s, g) \<and> (s = [] \<or> s = [CHR 0x0A])"
  by (auto split: if_splits)

lemma match_all_digits_sound:
  assumes "re_match pat_all_digits w \<noteq> None"
  shows "\<exists>d. digits d \<and> (w = d \<or> w = d @ [CHR 0x0A])"
proof -
  from assms obtain st' where "st' \<in> set (ms pat_all_digits ([], w, []))"
    by (auto simp: re_match_def split: list.splits)
  moreover have "pat_all_digits = Seq Bol (Seq (Plus Dig) (Seq Eol Eps))"
    by (simp add: pat_all_digits_def Seqs_def)
  ultimately have "st' \<in> set (ms (Seq Bol (Seq (Plus Dig) (Seq Eol Eps))) ([], w, []))"
    by simp
  then obtain s1 s2 s3 where s1: "s1 \<in> set (ms Bol ([], w, []))"
    and s2: "s2 \<in> set (ms (Plus Dig) s1)" and s3: "s3 \<in> set (ms Eol s2)"
    unfolding ms_Seq_mem by blast
  from ms_Bol_mem[OF s1] have e1: "s1 = ([], w, [])" .
  from ms_Plus_Cls_mem[of s2 digit_chars "[]" w "[]"] s2 e1
  obtain d where d: "d \<noteq> []" "w = d @ fst (snd s2)" "set d \<subseteq> set digit_chars"
    by (auto simp: Dig_def)
  from ms_Eol_mem[of s3 "fst s2" "fst (snd s2)" "snd (snd s2)"] s3
  have "fst (snd s2) = [] \<or> fst (snd s2) = [CHR 0x0A]" by simp
  with d show ?thesis by (intro exI[of _ d]) (auto simp: digits_def)
qed

lemma ms_Plus_Cls_all:
  assumes "w \<noteq> []" "set w \<subseteq> set cs"
  shows "\<exists>rest. ms (Plus (Cls cs)) (p, w, g) = (rev w @ p, [], g) # rest"
proof -
  from assms obtain x xs where w: "w = x # xs" "x \<in> set cs" "set xs \<subseteq> set cs"
    by (cases w) auto
  from ms_Star_Cls_hd[of cs "x # p" xs g] obtain rest where
    "ms (Star (Cls cs)) (x # p, xs, g) =
      (rev (takeWhile (\<lambda>c. c \<in> set cs) xs) @ x # p, dropWhile (\<lambda>c. c \<in> set cs) xs, g) # rest"
    by blast
  moreover have "takeWhile (\<lambda>c. c \<in> set cs) xs = xs" "dropWhile (\<lambda>c. c \<in> set cs) xs = []"
    using w(3) by (auto simp: subset_iff)
  ultimately show ?thesis using w by (simp add: Plus_def)
qed

lemma match_all_digits_complete:
  assumes "digits w"
  shows "re_match pat_all_digits w \<noteq> None"
proof -
  from assms have "w \<noteq> []" "set w \<subseteq> set digit_chars" by (simp_all add: digits_def)
  from ms_Plus_Cls_all[OF this, of "[]" "[]"] obtain rest where
    "ms (Plus Dig) ([], w, []) = (rev w @ [], [], []) # rest" by (auto simp: Dig_def)
  then have "ms pat_all_digits ([], w, []) \<noteq> []"
    unfolding pat_all_digits_def Seqs_def by simp
  then show ?thesis by (auto simp: re_match_def split: list.splits)
qed

lemma match_all_digits_word:
  assumes "w \<in> set (py_split s)"
  shows "re_match pat_all_digits w \<noteq> None \<longleftrightarrow> digits w"
proof
  assume "re_match pat_all_digits w \<noteq> None"
  from match_all_digits_sound[OF this] obtain d where d: "digits d" "w = d \<or> w = d @ [CHR 0x0A]"
    by blast
  have "is_ws (CHR 0x0A)" by (simp add: is_ws_def ws_chars_def)
  with py_split_words[OF assms] d show "digits w" by auto
next
  assume "digits w"
  then show "re_match pat_all_digits w \<noteq> None" by (rule match_all_digits_complete)
qed

subsection \<open>parse_message always returns\<close>

lemma last_word_budget_closed_form:
  "last_word_budget s =
     Inr (if py_split s \<noteq> [] \<and> digits (last (py_split s)) \<and> 10 < digits_val (last (py_split s))
          then Some (of_nat (digits_val (last (py_split s))), join_space (butlast (py_split s)))
          else None)"
proof (cases "py_split s = []")
  case True
  then show ?thesis by (simp add: last_word_budget_def)
next
  case False
  then have "last (py_split s) \<in> set (py_split s)" by simp
  from match_all_digits_word[OF this]
  have m: "re_match pat_all_digits (last (py_split s)) \<noteq> None \<longleftrightarrow> digits (last (py_split s))" .
  show ?thesis
  proof (cases "digits (last (py_split s))")
    case True
    with m False show ?thesis
      by (simp add: last_word_budget_def Let_def py_int_digits py_float_digits del: not_None_eq)
  next
    case nd: False
    with m False show ?thesis
      by (simp add: last_word_budget_def Let_def del: not_None_eq)
  qed
qed






section \<open>The budget filter\<close>

lemma parse_one_price: "parse_one r pr = Inr p \<Longrightarrow> price p = pr"
  by (auto simp: parse_one_def split: sum.splits)

lemma fap_skip:
  "category_rejects mo r \<or> budget_rejects (parse_price (field r ''price'')) bud \<Longrightarrow>
   filter_and_parse (r # rs) bud mo = filter_and_parse rs bud mo"
  by (auto simp: Let_def)

lemma fap_keep:
  "\<not> category_rejects mo r \<Longrightarrow> \<not> budget_rejects (parse_price (field r ''price'')) bud \<Longrightarrow>
   filter_and_parse (r # rs) bud mo = Inr out \<Longrightarrow>
   \<exists>q qs. parse_one r (parse_price (field r ''price'')) = Inr q \<and>
          filter_and_parse rs bud mo = Inr qs \<and> out = q # qs"
  by (auto simp: Let_def split: sum.splits)

lemma filter_and_parse_prices:
  "filter_and_parse rs bud mo = Inr out \<Longrightarrow> p \<in> set out \<Longrightarrow> price p = Some v \<Longrightarrow> v \<le> bud"
proof (induction rs arbitrary: out)
  case Nil
  then show ?case by simp
next
  case (Cons r rs)
  show ?case
  proof (cases "category_rejects mo r \<or> budget_rejects (parse_price (field r ''price'')) bud")
    case True
    from Cons.prems(1) have "filter_and_parse rs bud mo = Inr out"
      unfolding fap_skip[OF True] .
    from Cons.IH[OF this Cons.prems(2) Cons.prems(3)] show ?thesis .
  next
    case False
    then have c: "\<not> category_rejects mo r"
      and b: "\<not> budget_rejects (parse_price (field r ''price'')) bud"
      by simp_all
    from fap_keep[OF c b Cons.prems(1)] obtain q qs where
      q: "parse_one r (parse_price (field r ''price'')) = Inr q"
      and qs: "filter_and_parse rs bud mo = Inr qs" and out: "out = q # qs"
      by blast
    show ?thesis
    proof (cases "p = q")
      case True
      with q Cons.prems(3) have "parse_price (field r ''price'') = Some v"
        using parse_one_price by fastforce
      with b show ?thesis by (simp add: budget_rejects_def)
    next
      case neq: False
      with Cons.prems(2) out have "p \<in> set qs" by simp
      from Cons.IH[OF qs this Cons.prems(3)] show ?thesis .
    qed
  qed
qed

lemma filter_and_parse_keeps_unknown:
  "filter_and_parse rs bud mo = Inr out \<Longrightarrow> r \<in> set rs \<Longrightarrow>
   parse_price (field r ''price'') = None \<Longrightarrow> \<not> category_rejects mo r \<Longrightarrow>
   \<exists>p \<in> set out. parse_one r None = Inr p"
proof (induction rs arbitrary: out)
  case Nil
  then show ?case by simp
next
  case (Cons a rs)
  show ?case
  proof (cases "category_rejects mo a \<or> budget_rejects (parse_price (field a ''price'')) bud")
    case True
    with Cons.prems have "r \<noteq> a" by (auto simp: budget_rejects_def)
    with Cons.prems(2) have r: "r \<in> set rs" by simp
    from Cons.prems(1) have "filter_and_parse rs bud mo = Inr out"
      unfolding fap_skip[OF True] .
    from Cons.IH[OF this r Cons.prems(3) Cons.prems(4)] show ?thesis .
  next
    case False
    then have c: "\<not> category_rejects mo a"
      and b: "\<not> budget_rejects (parse_price (field a ''price'')) bud"
      by simp_all
    from fap_keep[OF c b Cons.prems(1)] obtain q qs where
      q: "parse_one a (parse_price (field a ''price'')) = Inr q"
      and qs: "filter_and_parse rs bud mo = Inr qs" and out: "out = q # qs"
      by blast
    show ?thesis
    proof (cases "r = a")
      case True
      with q Cons.prems(3) out show ?thesis by auto
    next
      case neq: False
      with Cons.prems(2) have "r \<in> set rs" by simp
      from Cons.IH[OF qs this Cons.prems(3) Cons.prems(4)] out show ?thesis by auto
    qed
  qed
qed

text \<open>
  C6. Whenever \<^verbatim>\<open>_filter_and_parse\<close> returns, every listing it kept has an unknown price
  or a price at most the budget (so none has a price above it); the budget test never
  rejects an unknown price; and every raw listing whose price parses to unknown and which
  the category filter lets through has its parsed record in the output.
\<close>

theorem budget_filter_sound:
  "filter_and_parse rs bud mo = Inr out \<Longrightarrow>
     (\<forall>p \<in> set out. price p = None \<or> (\<exists>v. price p = Some v \<and> v \<le> bud))
   \<and> (\<forall>p \<in> set out. \<not> (\<exists>v. price p = Some v \<and> v > bud))
   \<and> \<not> budget_rejects None bud
   \<and> (\<forall>r \<in> set rs. parse_price (field r ''price'') = None \<and> \<not> category_rejects mo r
          \<longrightarrow> (\<exists>p \<in> set out. parse_one r None = Inr p \<and> price p = None))"
proof -
  assume ok: "filter_and_parse rs bud mo = Inr out"
  have a: "price p = None \<or> (\<exists>v. price p = Some v \<and> v \<le> bud)" if "p \<in> set out" for p
    using filter_and_parse_prices[OF ok that] by (cases "price p") auto
  have b: "\<not> (\<exists>v. price p = Some v \<and> v > bud)" if "p \<in> set out" for p
    using filter_and_parse_prices[OF ok that] by fastforce
  have c: "\<exists>p \<in> set out. parse_one r None = Inr p \<and> price p = None"
    if "r \<in> set rs" "parse_price (field r ''price'') = None" "\<not> category_rejects mo r" for r
    using filter_and_parse_keeps_unknown[OF ok that] parse_one_price by blast
  from a b c show ?thesis by (auto simp: budget_rejects_def)
qed

theorem budget_filter_sound_witness:
  "filter_and_parse
     [[''title'' \<mapsto> ''Dell Monitor'', ''price'' \<mapsto> ''199.99''],
      [''title'' \<mapsto> ''LG Monitor'', ''price'' \<mapsto> ''1,299.99''],
      [''title'' \<mapsto> ''HP Monitor'', ''price'' \<mapsto> ''$'']] 300 False
   = Inr [\<lparr>title = ''Dell Monitor'', price = Some (19999 / 100), rating = None, reviews = 0,
           screen_size = None, url = [], asin = []\<rparr>,
          \<lparr>title = ''HP Monitor'', price = None, rating = None, reviews = 0,
           screen_size = None, url = [], asin = []\<rparr>]
   \<and> list_all (\<lambda>p. price p = None \<or> (\<exists>v. price p = Some v \<and> v \<le> 300))
        [\<lparr>title = ''Dell Monitor'', price = Some (19999 / 100), rating = None, reviews = 0,
          screen_size = None, url = [], asin = []\<rparr>,
         \<lparr>title = ''HP Monitor'', price = None, rating = None, reviews = 0,
          screen_size = None, url = [], asin = []\<rparr>]"
proof -
  have e: "filter_and_parse
     [[''title'' \<mapsto> ''Dell Monitor'', ''price'' \<mapsto> ''199.99''],
      [''title'' \<mapsto> ''LG Monitor'', ''price'' \<mapsto> ''1,299.99''],
      [''title'' \<mapsto> ''HP Monitor'', ''price'' \<mapsto> ''$'']] 300 False
   = Inr [\<lparr>title = ''Dell Monitor'', price = Some (19999 / 100), rating = None, reviews = 0,
           screen_size = None, url = [], asin = []\<rparr>,
          \<lparr>title = ''HP Monitor'', price = None, rating = None, reviews = 0,
           screen_size = None, url = [], asin = []\<rparr>]"
    by code_simp
  from budget_filter_sound[OF e] e show ?thesis
    unfolding list_all_iff by blast
qed

section \<open>The deduplicator\<close>

lemma dedup_loop_extends:
  "\<exists>ys. dedup_loop ps sa st u = u @ ys \<and> subseq ys ps"
proof (induction ps arbitrary: sa st u)
  case Nil
  then show ?case by simp
next
  case (Cons p ps)
  show ?case
  proof (cases "(asin p \<noteq> [] \<and> asin p \<in> sa) \<or> title_key p \<in> st")
    case True
    then have "dedup_loop (p # ps) sa st u = dedup_loop ps sa st u" by auto
    with Cons[of sa st u] show ?thesis by (metis list_emb_Cons)
  next
    case False
    then have eq: "dedup_loop (p # ps) sa st u =
      dedup_loop ps (if asin p \<noteq> [] then insert (asin p) sa else sa)
        (insert (title_key p) st) (u @ [p])"
      by auto
    from Cons[of "if asin p \<noteq> [] then insert (asin p) sa else sa"
                 "insert (title_key p) st" "u @ [p]"]
    obtain ys where
      "dedup_loop ps (if asin p \<noteq> [] then insert (asin p) sa else sa)
         (insert (title_key p) st) (u @ [p]) = (u @ [p]) @ ys"
      "subseq ys ps"
      by blast
    with eq show ?thesis by (intro exI[of _ "p # ys"]) simp
  qed
qed

text \<open>
  The loop invariant: the two seen-sets hold exactly the keys of the listings kept so
  far, and those keys are pairwise different.
\<close>

lemma dedup_loop_distinct:
  "distinct (map title_key u) \<Longrightarrow> distinct (asin_keys u) \<Longrightarrow>
   st = set (map title_key u) \<Longrightarrow> sa = set (asin_keys u) \<Longrightarrow>
   distinct (map title_key (dedup_loop ps sa st u))
   \<and> distinct (asin_keys (dedup_loop ps sa st u))"
proof (induction ps arbitrary: sa st u)
  case Nil
  then show ?case by simp
next
  case (Cons p ps)
  show ?case
  proof (cases "(asin p \<noteq> [] \<and> asin p \<in> sa) \<or> title_key p \<in> st")
    case True
    then have "dedup_loop (p # ps) sa st u = dedup_loop ps sa st u" by auto
    with Cons show ?thesis by simp
  next
    case False
    then have eq: "dedup_loop (p # ps) sa st u =
      dedup_loop ps (if asin p \<noteq> [] then insert (asin p) sa else sa)
        (insert (title_key p) st) (u @ [p])"
      by auto
    have 1: "distinct (map title_key (u @ [p]))" using False Cons.prems by auto
    have 2: "distinct (asin_keys (u @ [p]))"
      using False Cons.prems by (auto simp: asin_keys_def)
    have 3: "insert (title_key p) st = set (map title_key (u @ [p]))"
      using Cons.prems by auto
    have 4: "(if asin p \<noteq> [] then insert (asin p) sa else sa) = set (asin_keys (u @ [p]))"
      using Cons.prems by (auto simp: asin_keys_def)
    from Cons.IH[OF 1 2 3 4] eq show ?thesis by simp
  qed
qed

text \<open>
  C5. In the output of \<^verbatim>\<open>_deduplicate\<close> the non-empty identifiers are pairwise different
  and so are the title keys (lower-cased, stripped, white space collapsed): a listing is
  appended only when neither of its keys is among those of the listings kept before it.
  The output is a subsequence of the input, so the survivors keep their relative order.
\<close>

theorem deduplicate_invariant:
  "distinct (asin_keys (deduplicate ps))
   \<and> distinct (map title_key (deduplicate ps))
   \<and> subseq (deduplicate ps) ps"
proof -
  have "distinct (map title_key (deduplicate ps)) \<and> distinct (asin_keys (deduplicate ps))"
    unfolding deduplicate_def by (rule dedup_loop_distinct) (simp_all add: asin_keys_def)
  moreover have "subseq (deduplicate ps) ps"
    using dedup_loop_extends[of ps "{}" "{}" "[]"] by (auto simp: deduplicate_def)
  ultimately show ?thesis by simp
qed

text \<open>Two listings with one identifier and different titles: the second is dropped.\<close>

lemma deduplicate_same_asin:
  "deduplicate
     [\<lparr>title = ''Dell Monitor'', price = None, rating = None, reviews = 0,
       screen_size = None, url = [], asin = ''B01''\<rparr>,
      \<lparr>title = ''Another title'', price = None, rating = None, reviews = 0,
       screen_size = None, url = [], asin = ''B01''\<rparr>]
   = [\<lparr>title = ''Dell Monitor'', price = None, rating = None, reviews = 0,
        screen_size = None, url = [], asin = ''B01''\<rparr>]"
  by code_simp

section \<open>The ranker: order and frame\<close>


text \<open>The caller's cut to the first ten keeps the order.\<close>

lemma search_core_sorted:
  "search_core rs q bud = Inr out \<Longrightarrow> sorted_wrt (\<lambda>a b. score a \<ge> score b) out"
proof -
  assume "search_core rs q bud = Inr out"
  then obtain ps where "out = take 10 (rank ps)"
    by (auto simp: search_core_def Let_def split: sum.splits)
  moreover have "sorted (map (\<lambda>q. - score q) (rank ps))" by (simp add: rank_def Let_def)
  then have "sorted_wrt (\<lambda>a b. score a \<ge> score b) (rank ps)" by (simp add: sorted_wrt_map)
  ultimately show ?thesis by simp
qed

lemma truncate_with_score: "listing.truncate (with_score mr p) = p"
  by (simp add: with_score_def listing.truncate_def)

text \<open>
  C10. \<^verbatim>\<open>_rank\<close> returns the input records, each with the score added and nothing else
  changed: a scored record agrees with its listing on title, price, rating, reviews,
  screen size, url and identifier, and the output without the scores is the input up to
  order.
\<close>

theorem rank_preserves_fields:
  "mset (rank ps) = mset (map (with_score (max_reviews ps)) ps)
   \<and> mset (map listing.truncate (rank ps)) = mset ps
   \<and> (\<forall>mr p. title (with_score mr p) = title p \<and> price (with_score mr p) = price p
        \<and> rating (with_score mr p) = rating p \<and> reviews (with_score mr p) = reviews p
        \<and> screen_size (with_score mr p) = screen_size p \<and> url (with_score mr p) = url p
        \<and> asin (with_score mr p) = asin p)"
proof -
  have a: "mset (rank ps) = mset (map (with_score (max_reviews ps)) ps)"
    by (simp add: rank_def Let_def)
  have "mset (map listing.truncate (rank ps)) = image_mset listing.truncate (mset (rank ps))"
    by simp
  also have "\<dots> = image_mset listing.truncate (mset (map (with_score (max_reviews ps)) ps))"
    using a by simp
  also have "\<dots> = mset ps"
    by (simp add: truncate_with_score multiset.map_comp comp_def)
  finally have b: "mset (map listing.truncate (rank ps)) = mset ps" .
  from a b show ?thesis by (simp add: with_score_def)
qed

section \<open>The category filter\<close>

lemma exclude_loop_closed_form:
  "exclude_loop kws lower hm =
     (hm \<and> \<not> list_ex (\<lambda>kw. startswith lower kw \<or> py_in ('' '' @ kw @ '' for '') lower
                             \<or> py_in ('' '' @ kw @ '','') lower) kws)"
  by (induction kws) auto

text \<open>
  C4, as amended. With the category flag on, a listing passes the category filter exactly
  when its lower-cased title contains one of monitor, display, screen and no exclusion
  keyword is a prefix of the lower-cased title, or occurs in it as " kw for " or as
  " kw," (each with the space in front). With the flag off every listing passes.
\<close>

theorem category_filter_characterised:
  "category_rejects monitor_only r =
     (monitor_only \<and>
      \<not> (list_ex (\<lambda>t. py_in t (py_lower (field r ''title''))) monitor_terms
         \<and> \<not> list_ex (\<lambda>kw. startswith (py_lower (field r ''title'')) kw
                           \<or> py_in ('' '' @ kw @ '' for '') (py_lower (field r ''title''))
                           \<or> py_in ('' '' @ kw @ '','') (py_lower (field r ''title'')))
                  EXCLUDE_KEYWORDS))"
  by (simp add: category_rejects_def is_actual_monitor_def Let_def exclude_loop_closed_form)

theorem category_filter_characterised_witness:
  "category_rejects True [''title'' \<mapsto> ''Monitor Stand for 27-inch Monitor'']
   \<and> \<not> category_rejects True [''title'' \<mapsto> ''Dell 27 Monitor'']
   \<and> \<not> category_rejects False [''title'' \<mapsto> ''Monitor Stand for 27-inch Monitor'']"
proof -
  have a: "category_rejects True [''title'' \<mapsto> ''Monitor Stand for 27-inch Monitor'']"
    unfolding category_filter_characterised by code_simp
  have b: "\<not> category_rejects True [''title'' \<mapsto> ''Dell 27 Monitor'']"
    unfolding category_filter_characterised by code_simp
  have c: "\<not> category_rejects False [''title'' \<mapsto> ''Monitor Stand for 27-inch Monitor'']"
    unfolding category_filter_characterised by simp
  from a b c show ?thesis by simp
qed

text \<open>
  The claim as worded fails in both directions. "Standard Monitor" begins with the letters
  of the keyword stand, so the code rejects it, although its first word is no keyword.
  "Monitor w/stand, black" has the keyword directly before a comma, but without a space in
  front, so the code accepts it.
\<close>

theorem category_filter_counterexample:
  "category_rejects True [''title'' \<mapsto> ''Standard Monitor'']
   \<and> spec_category_accepts True ''Standard Monitor''
   \<and> \<not> category_rejects True [''title'' \<mapsto> ''Monitor w/stand, black'']
   \<and> \<not> spec_category_accepts True ''Monitor w/stand, black''"
  by code_simp

section \<open>The command interpreter\<close>






lemma budget_loop_first:
  "(\<forall>q \<in> set pre. re_search q s = None) \<Longrightarrow> re_search pat s = Some m \<Longrightarrow>
   budget_loop (pre @ pat # post) s =
     (case py_float (group m 1) of
        Inl e \<Rightarrow> Inl e
      | Inr b \<Rightarrow> Inr (Some (b, py_strip (re_sub pat [] s))))"
  by (induction pre) simp_all

lemma budget_loop_none:
  "(\<forall>q \<in> set pats. re_search q s = None) \<Longrightarrow> budget_loop pats s = Inr None"
  by (induction pats) simp_all

lemma search_branch_of_result:
  "parse_message msg = Inr c \<Longrightarrow> intent c = Search \<Longrightarrow>
   search_command (initial_result msg) (search_text msg) = Inr c"
  by (auto simp: parse_message_def Let_def search_text_def initial_result_def
           split: if_splits sum.splits)

lemma scenario_add:
  "parse_message ''add 1 3 5'' =
     Inr \<lparr>intent = Add, query = [], budget = 9999, budget_specified = False,
          items = Indices [1, 3, 5], raw = ''add 1 3 5''\<rparr>"
  by code_simp

lemma scenario_6:
  "parse_message ''find 4K monitor under 250'' =
     Inr \<lparr>intent = Search, query = ''4k monitor'', budget = 250, budget_specified = True,
          items = Indices [], raw = ''find 4K monitor under 250''\<rparr>"
  by code_simp

text \<open>
  C7. For a message interpreted as a search, with \<open>search_text\<close> the text left after the
  trigger loop: if a budget pattern matches and none of the patterns before it in the
  list does, the budget is the number in group 1 of its first match, it is marked
  explicit, and the query is built from the text with the matches of that pattern
  removed. If no pattern matches and the last word is a bare integer above 10, that
  number is the explicit budget and the query is built from the words before it.
  Otherwise the budget is the default 9999, not explicit, and the query is built from the
  whole text. "find 4K monitor under 250" gives intent search, budget 250, explicit, and
  the query "4k monitor".
\<close>

theorem budget_extraction:
  "parse_message msg = Inr c \<Longrightarrow> intent c = Search \<Longrightarrow>
     (\<forall>pre pat post m.
         budget_patterns = pre @ pat # post
         \<and> (\<forall>q \<in> set pre. re_search q (search_text msg) = None)
         \<and> re_search pat (search_text msg) = Some m
         \<longrightarrow> py_float (group m 1) = Inr (budget c) \<and> budget_specified c
             \<and> query c = finish_query (py_strip (re_sub pat [] (search_text msg))))
   \<and> ((\<forall>q \<in> set budget_patterns. re_search q (search_text msg) = None) \<longrightarrow>
        (if py_split (search_text msg) \<noteq> [] \<and> digits (last (py_split (search_text msg)))
            \<and> 10 < digits_val (last (py_split (search_text msg)))
         then budget c = of_nat (digits_val (last (py_split (search_text msg))))
              \<and> budget_specified c
              \<and> query c = finish_query (join_space (butlast (py_split (search_text msg))))
         else budget c = 9999 \<and> \<not> budget_specified c
              \<and> query c = finish_query (search_text msg)))
   \<and> parse_message ''find 4K monitor under 250'' =
        Inr \<lparr>intent = Search, query = ''4k monitor'', budget = 250, budget_specified = True,
             items = Indices [], raw = ''find 4K monitor under 250''\<rparr>"
proof -
  assume pm: "parse_message msg = Inr c" and sr: "intent c = Search"
  from search_branch_of_result[OF pm sr]
  have sc: "search_command (initial_result msg) (search_text msg) = Inr c" .
  have 1: "py_float (group m 1) = Inr (budget c) \<and> budget_specified c
           \<and> query c = finish_query (py_strip (re_sub pat [] (search_text msg)))"
    if h: "budget_patterns = pre @ pat # post"
      "\<forall>q \<in> set pre. re_search q (search_text msg) = None"
      "re_search pat (search_text msg) = Some m" for pre pat post m
  proof -
    from budget_loop_first[OF h(2) h(3), of post] h(1)
    have bl: "budget_loop budget_patterns (search_text msg) =
       (case py_float (group m 1) of
          Inl e \<Rightarrow> Inl e
        | Inr b \<Rightarrow> Inr (Some (b, py_strip (re_sub pat [] (search_text msg)))))" by simp
    from sc show ?thesis
      unfolding search_command_def bl by (cases "py_float (group m 1)") auto
  qed
  have 2: "(if py_split (search_text msg) \<noteq> [] \<and> digits (last (py_split (search_text msg)))
            \<and> 10 < digits_val (last (py_split (search_text msg)))
         then budget c = of_nat (digits_val (last (py_split (search_text msg))))
              \<and> budget_specified c
              \<and> query c = finish_query (join_space (butlast (py_split (search_text msg))))
         else budget c = 9999 \<and> \<not> budget_specified c
              \<and> query c = finish_query (search_text msg))"
    if h: "\<forall>q \<in> set budget_patterns. re_search q (search_text msg) = None"
  proof -
    from sc show ?thesis
      unfolding search_command_def budget_loop_none[OF h] last_word_budget_closed_form
      by (auto simp: initial_result_def)
  qed
  from 1 2 scenario_6 show ?thesis by blast
qed

theorem budget_extraction_witness:
  "py_float (group [(0, ''under 250''), (1, ''250'')] 1) = Inr 250
   \<and> finish_query (py_strip (re_sub pat_qualifier_before [] (search_text ''find 4K monitor under 250'')))
       = ''4k monitor''"
proof -
  let ?c = "\<lparr>intent = Search, query = ''4k monitor'', budget = 250, budget_specified = True,
             items = Indices [], raw = ''find 4K monitor under 250''\<rparr>"
  let ?s = "search_text ''find 4K monitor under 250''"
  have pm: "parse_message ''find 4K monitor under 250'' = Inr ?c"
    by code_simp
  have sr: "intent ?c = Search" by simp
  have bp: "budget_patterns
            = [pat_currency, pat_currency_word] @ pat_qualifier_before # [pat_qualifier_after]"
    by (simp add: budget_patterns_def)
  have n: "\<forall>q \<in> set [pat_currency, pat_currency_word]. re_search q ?s = None"
    by code_simp
  have m: "re_search pat_qualifier_before ?s = Some [(0, ''under 250''), (1, ''250'')]"
    by code_simp
  have "py_float (group [(0, ''under 250''), (1, ''250'')] 1) = Inr (budget ?c)
        \<and> budget_specified ?c
        \<and> query ?c = finish_query (py_strip (re_sub pat_qualifier_before [] ?s))"
    using budget_extraction[OF pm sr, THEN conjunct1, rule_format,
            of "[pat_currency, pat_currency_word]" pat_qualifier_before "[pat_qualifier_after]"
               "[(0, ''under 250''), (1, ''250'')]"] bp n m
    by blast
  then show ?thesis by simp
qed

section \<open>The field parsers\<close>

text \<open>The parsing scenarios of the specification, on the model.\<close>

lemma scenarios_parsers:
  "parse_price ''1,299.99'' = Some (129999 / 100)
   \<and> parse_rating ''4.3 out of 5 stars'' = Inr (Some (43 / 10))
   \<and> parse_rating ''127'' = Inr None
   \<and> parse_reviews ''2.3K'' = Inr 2300
   \<and> parse_reviews [] = Inr 0"
  by code_simp

text \<open>
  C3. \<^verbatim>\<open>_parse_price\<close> catches the \<^verbatim>\<open>ValueError\<close> of \<^verbatim>\<open>float\<close>; \<^verbatim>\<open>_parse_rating\<close> and
  \<^verbatim>\<open>_parse_reviews\<close> do not. A rating text whose first number is followed by a period,
  or a review text with two dots before the K, makes the parser raise, and
  \<^verbatim>\<open>_filter_and_parse\<close> with it.
\<close>

theorem rating_and_reviews_parsers_raise:
  "parse_rating ''Rated 4.5.'' = Inl ValueError
  \<and> parse_reviews ''1.2.3k'' = Inl ValueError
  \<and> filter_and_parse [[''title'' \<mapsto> ''Dell Monitor'', ''rating'' \<mapsto> ''Rated 4.5.'']] 300 False = Inl ValueError"
  by code_simp

section \<open>The ranker: the score bound\<close>

text \<open>
  Each of the four components stays within its cap, and the rounded sum within 0..100,
  as long as every rating lies in 0..5 and no review count is negative.
\<close>

lemma py_round1_bounds: "0 \<le> x \<Longrightarrow> x \<le> 100 \<Longrightarrow> 0 \<le> py_round1 x \<and> py_round1 x \<le> 100"
proof -
  assume a: "0 \<le> x" "x \<le> 100"
  define f where "f = \<lfloor>x * 10\<rfloor>"
  have f0: "0 \<le> f" using a by (simp add: f_def)
  have f1: "f \<le> 1000" using a by (simp add: f_def floor_le_iff)
  have d: "f = 1000 \<Longrightarrow> x * 10 - of_int f = 0"
  proof -
    assume e: "f = 1000"
    have "of_int f \<le> x * 10" unfolding f_def by (rule of_int_floor_le)
    with e a show ?thesis by simp
  qed
  show ?thesis
  proof (cases "f = 1000")
    case True
    with d show ?thesis by (simp add: py_round1_def Let_def f_def[symmetric])
  next
    case False
    with f1 have "f + 1 \<le> 1000" by simp
    with f0 show ?thesis
      by (auto simp: py_round1_def Let_def f_def[symmetric])
  qed
qed

lemma fold_max_ge: "(a::int) \<le> fold max ns a \<and> (\<forall>n \<in> set ns. n \<le> fold max ns a)"
proof (induction ns arbitrary: a)
  case Nil
  show ?case by simp
next
  case (Cons n ns)
  from Cons[of "max n a"] show ?case by auto
qed

lemma max_reviews_ge:
  assumes "p \<in> set ps"
  shows "reviews p \<le> max_reviews ps \<or> reviews p = 0"
proof (cases "reviews p = 0")
  case True
  then show ?thesis by simp
next
  case False
  with assms have m: "reviews p \<in> set (filter (\<lambda>n. n \<noteq> 0) (map reviews ps))" by auto
  then obtain n ns where e: "filter (\<lambda>n. n \<noteq> 0) (map reviews ps) = n # ns"
    by (cases "filter (\<lambda>n. n \<noteq> 0) (map reviews ps)") auto
  with m fold_max_ge[of n ns] have "reviews p \<le> fold max ns n" by auto
  with e show ?thesis by (simp add: max_reviews_def)
qed

lemma score_of_bounds:
  assumes r0: "0 \<le> reviews p" and rm: "reviews p \<le> mr"
    and rt: "\<forall>v. rating p = Some v \<longrightarrow> 0 \<le> v \<and> v \<le> 5"
  shows "0 \<le> score_of mr p \<and> score_of mr p \<le> 100"
proof -
  have pop: "0 \<le> popularity_points mr p \<and> popularity_points mr p \<le> 45"
  proof (cases "reviews p > 0")
    case True
    with rm have "0 < mr" by simp
    define t :: rat where "t = of_int (reviews p) / of_int mr"
    from True rm \<open>0 < mr\<close> have "t \<le> 1" "0 \<le> t"
      by (simp_all add: t_def divide_le_eq_1)
    then have "0 \<le> t * 45 \<and> t * 45 \<le> 45" by simp
    with True show ?thesis by (simp only: popularity_points_def t_def if_True)
  next
    case False
    then show ?thesis by (simp add: popularity_points_def)
  qed
  have qual: "0 \<le> quality_points p \<and> quality_points p \<le> 35"
  proof (cases "rating p")
    case None
    then show ?thesis by (simp add: quality_points_def)
  next
    case (Some v)
    with rt have v: "0 \<le> v" "v \<le> 5" by auto
    define k :: rat where "k = min (of_int (reviews p) / 50) 1"
    have k: "0 \<le> k" "k \<le> 1" using r0 by (simp_all add: k_def)
    have "v * k \<le> 5 * 1" using v k by (intro mult_mono) auto
    moreover have "0 \<le> v * k" using v k by simp
    ultimately have b: "0 \<le> (v / 5) * 35 * k \<and> (v / 5) * 35 * k \<le> 35"
      by (simp add: mult.commute)
    show ?thesis
    proof (cases "v = 0")
      case True
      with Some show ?thesis by (simp add: quality_points_def)
    next
      case False
      with Some have "quality_points p = (v / 5) * 35 * k" by (simp add: quality_points_def k_def)
      with b show ?thesis by simp
    qed
  qed
  have pr: "0 \<le> price_points p \<and> price_points p \<le> 10"
    by (cases "price p") (auto simp: price_points_def max_def)
  have sz: "0 \<le> size_points p \<and> size_points p \<le> 10"
    by (cases "screen_size p") (auto simp: size_points_def)
  from pop qual pr sz show ?thesis
    unfolding score_of_def by (intro py_round1_bounds) auto
qed

lemma rank_score_bounds_if_ratings_in_range:
  assumes "\<forall>p \<in> set ps. 0 \<le> reviews p \<and> (\<forall>v. rating p = Some v \<longrightarrow> 0 \<le> v \<and> v \<le> 5)"
  shows "\<forall>q \<in> set (rank ps). 0 \<le> score q \<and> score q \<le> 100"
proof
  fix q assume "q \<in> set (rank ps)"
  then obtain p where p: "p \<in> set ps" and q: "q = with_score (max_reviews ps) p"
    by (auto simp: rank_def Let_def)
  from p assms have r0: "0 \<le> reviews p" and rt: "\<forall>v. rating p = Some v \<longrightarrow> 0 \<le> v \<and> v \<le> 5"
    by auto
  show "0 \<le> score q \<and> score q \<le> 100"
  proof (cases "reviews p = 0")
    case True
    have "0 \<le> score_of (max_reviews ps) p \<and> score_of (max_reviews ps) p \<le> 100"
    proof -
      have a: "popularity_points (max_reviews ps) p = popularity_points 0 p"
        using True by (simp add: popularity_points_def)
      have "score_of (max_reviews ps) p = score_of 0 p" by (simp add: score_of_def a)
      moreover have "0 \<le> score_of 0 p \<and> score_of 0 p \<le> 100"
        using True rt by (intro score_of_bounds) auto
      ultimately show ?thesis by simp
    qed
    with q show ?thesis by (simp add: with_score_def)
  next
    case False
    with max_reviews_ge[OF p] have "reviews p \<le> max_reviews ps" by simp
    from score_of_bounds[OF r0 this rt] q show ?thesis by (simp add: with_score_def)
  qed
qed

text \<open>
  C1. The bound fails on what \<^verbatim>\<open>_parse_rating\<close> can return. Its first pattern accepts
  any number in front of "out of 5" or "/5" (also when "5" begins "50") without the
  check against 5 that the fallback branch makes; for the rating text "10 out of 50" the
  rating is 10, the quality component is 70 instead of at most 35, and with 100 reviews
  the score is 115.
\<close>

theorem rank_score_exceeds_100:
  "search_core
     [[''title'' \<mapsto> ''Dell Monitor'', ''rating'' \<mapsto> ''10 out of 50'', ''reviews'' \<mapsto> ''100'']]
     ''monitor'' 300
   = Inr [\<lparr>title = ''Dell Monitor'', price = None, rating = Some 10, reviews = 100,
           screen_size = None, url = [], asin = [], score = 115\<rparr>]"
  by code_simp

section \<open>The title normalizer\<close>





















end
